theory Spec2Isabelle
  imports Complex_Main "HOL-Library.Multiset"
begin

section \<open>Acquisition ranking and the query sampler (src/query/query.py)\<close>

text \<open>
  A shallow embedding of \<^verbatim>\<open>QuerySampler\<close> and the module-level helpers of
  \<^verbatim>\<open>query.py\<close>. Exceptions are values of the type \<open>error\<close> (\<open>Inl\<close> of a sum),
  Python lists and numpy arrays are lists, scores are reals, indices are naturals and
  labels are integers. The collaborators that \<^verbatim>\<open>query.py\<close> only calls (the data module,
  the two strategy modules, the plotting library) are records of the values and
  functions that the calls yield.
\<close>

subsection \<open>Errors\<close>

text \<open>
  \<open>NotImplementedError\<close> is raised by \<^verbatim>\<open>ranking_step\<close> itself (the specification calls
  it UnsupportedStrategy); \<open>IndexError\<close> is \<^verbatim>\<open>pool[ind]\<close> out of range;
  \<open>RuntimeError\<close> is \<^verbatim>\<open>torch.stack\<close> applied to an empty list;
  \<open>ZeroDivisionError\<close> is \<^verbatim>\<open>correct / counts\<close> with \<^verbatim>\<open>counts == 0\<close>;
  \<open>EmptyPool\<close> is the ranking engine's error of the specification;
  \<open>PlotError\<close> stands for whatever the plotting code raises.
\<close>

datatype error =
    NotImplementedError
  | EmptyPool
  | IndexError
  | RuntimeError
  | ZeroDivisionError
  | PlotError

subsection \<open>Data model\<close>

text \<open>\<^verbatim>\<open>datamodule.train_set\<close>: the pool of (input, label) samples and the label count.\<close>

record 'x train_set =
  pool :: "('x \<times> int) list"
  train_n_labelled :: nat

text \<open>
  The data module, as \<^verbatim>\<open>query.py\<close> uses it. The loaders are finite sequences of
  batches; \<open>pool_dataloader\<close> takes \<^verbatim>\<open>batch_size\<close> and \<^verbatim>\<open>m\<close>, \<open>labeled_dataloader\<close>
  takes \<^verbatim>\<open>batch_size\<close>; an absent validation or test loader is \<open>None\<close>.
  \<open>pool_index\<close> is the data source's map from a pool-local index to the
  caller-visible index.
\<close>

record 'x datamodule =
  batch_size :: nat
  num_classes :: nat
  train_set :: "'x train_set"
  pool_dataloader :: "nat \<Rightarrow> nat \<Rightarrow> 'x list list"
  labeled_dataloader :: "nat \<Rightarrow> ('x \<times> int) list list"
  pool_index :: "nat \<Rightarrow> nat"
  val_dataloader :: "('x \<times> int) list list option"
  test_dataloader :: "('x \<times> int) list list option"

text \<open>
  The fields of \<^verbatim>\<open>QuerySampler.__init__\<close>. \<open>model\<close> is the classifier in inference
  mode, read through \<^verbatim>\<open>torch.argmax(model(x), dim=1)\<close>: the predicted class of one
  input. \<open>count_opt\<close> is the field \<^verbatim>\<open>count\<close>. The device is left out: it
  moves tensors and changes no value.
\<close>

record 'x query_sampler =
  m :: nat
  acq_size :: nat
  acq_method :: string
  model :: "'x \<Rightarrow> int"
  count_opt :: "nat option"

text \<open>
  What \<^verbatim>\<open>query.py\<close> takes from the modules it imports: the two name sets
  (\<^verbatim>\<open>query_uncertainty.names\<close>, \<^verbatim>\<open>query_diversity.names\<close>), the acquisition function
  and post-acquisition function built for the configuration (the acquisition function
  scores one input in one stochastic pass, the pass number standing for the
  randomness), the diversity family's opaque joint selection, the plotting calls
  (\<^verbatim>\<open>active_plots.normalize\<close>, \<^verbatim>\<open>active_plots.visualize_samples\<close>,
  \<^verbatim>\<open>active_plots.visualize_labels\<close>, \<^verbatim>\<open>plt.savefig\<close>), each of which may raise,
  and the shape of an input tensor (\<^verbatim>\<open>x.shape\<close>), which \<^verbatim>\<open>torch.stack\<close> compares.
\<close>

record ('x, 'r) imports_env =
  uncertainty_names :: "string list"
  diversity_names :: "string list"
  acq_fn :: "nat \<Rightarrow> 'x \<Rightarrow> 'r"
  post_acq_fn :: "'r list \<Rightarrow> real"
  diversity_select ::
    "('x \<times> int) list list \<Rightarrow> 'x list list \<Rightarrow> nat \<Rightarrow> nat list \<times> real list"
  normalize :: "'x list \<Rightarrow> error + 'x list"
  visualize_samples :: "'x list \<Rightarrow> real list \<Rightarrow> error + unit"
  visualize_labels :: "int list \<Rightarrow> nat \<Rightarrow> error + unit"
  savefig :: "string \<Rightarrow> error + unit"
  shape :: "'x \<Rightarrow> nat list"

text \<open>
  \<^verbatim>\<open>ActiveStore(requests, n_labelled, accuracy_val, accuracy_test, labels)\<close>, as
  \<^verbatim>\<open>active_callback\<close> constructs it.
\<close>

record active_store =
  requests :: "nat list"
  n_labelled :: nat
  accuracy_val :: real
  accuracy_test :: real
  labels :: "int list"

subsection \<open>The ranking engine\<close>

text \<open>The number of samples a loader yields.\<close>

definition pool_size :: "'a list list \<Rightarrow> nat" where
  "pool_size loader = length (concat loader)"

text \<open>
  Modelled from the spec: the uncertainty policy of \<^verbatim>\<open>query_uncertainty.query_sampler\<close>,
  whose code is not among the sources. One sample is scored by \<open>m\<close> stochastic passes
  of the acquisition function, reduced to one scalar by the post-acquisition function.
\<close>

definition score_sample :: "('x, 'r) imports_env \<Rightarrow> nat \<Rightarrow> 'x \<Rightarrow> real" where
  "score_sample env passes x = post_acq_fn env (map (\<lambda>pass. acq_fn env pass x) [0..<passes])"

text \<open>
  Modelled from the spec: the pass over the pool, batch by batch, that pairs every
  score with its pool-local index, the indices assigned by a running offset.
\<close>

fun accumulate :: "('x \<Rightarrow> real) \<Rightarrow> nat \<Rightarrow> 'x list list \<Rightarrow> (nat \<times> real) list" where
  "accumulate sc off [] = []"
| "accumulate sc off (batch # rest) =
     zip [off ..< off + length batch] (map sc batch) @ accumulate sc (off + length batch) rest"

text \<open>
  Modelled from the spec: top-k selection as a bounded running structure. The
  structure is a list in descending order of score that never holds more than \<open>k\<close>
  entries; a new entry goes behind every entry whose score is at least its own, so an
  entry met earlier stays ahead of a later one with the same score.
\<close>

fun insert_ranked :: "nat \<times> real \<Rightarrow> (nat \<times> real) list \<Rightarrow> (nat \<times> real) list" where
  "insert_ranked e [] = [e]"
| "insert_ranked e (h # t) = (if snd e \<le> snd h then h # insert_ranked e t else e # h # t)"

text \<open>
  Modelled from the spec: the selection of \<^verbatim>\<open>query_uncertainty.query_sampler\<close> over
  the accumulated pairs. Every pair is put into the running structure in encounter
  order and the structure is cut back to \<open>k\<close> entries after each step.
\<close>

definition top_k :: "nat \<Rightarrow> (nat \<times> real) list \<Rightarrow> (nat \<times> real) list" where
  "top_k k es = foldl (\<lambda>acc e. take k (insert_ranked e acc)) [] es"

text \<open>
  Modelled from the spec: \<^verbatim>\<open>query_uncertainty.query_sampler\<close>. A pool of size zero is
  the error EmptyPool; otherwise the indices and the scores of the selection.
\<close>

definition uncertainty_query_sampler ::
  "('x, 'r) imports_env \<Rightarrow> nat \<Rightarrow> 'x list list \<Rightarrow> nat \<Rightarrow> error + (nat list \<times> real list)" where
  "uncertainty_query_sampler env passes pool_loader k =
     (let scored = accumulate (score_sample env passes) 0 pool_loader in
      if scored = [] then Inl EmptyPool
      else (let sel = top_k k scored in Inr (map fst sel, map snd sel)))"

text \<open>
  Modelled from the spec: \<^verbatim>\<open>query_diversity.query_sampler\<close>. The engine's error for a
  pool of size zero, then the family's own selection, opaque to the engine.
\<close>

definition diversity_query_sampler ::
  "('x, 'r) imports_env \<Rightarrow> ('x \<times> int) list list \<Rightarrow> 'x list list \<Rightarrow> nat
     \<Rightarrow> error + (nat list \<times> real list)" where
  "diversity_query_sampler env labeled_loader pool_loader k =
     (if pool_size pool_loader = 0 then Inl EmptyPool
      else Inr (diversity_select env labeled_loader pool_loader k))"

text \<open>\<^verbatim>\<open>self.acq_method.split("_")[0]\<close>: the name up to its first underscore.\<close>

definition method_prefix :: "string \<Rightarrow> string" where
  "method_prefix name = takeWhile (\<lambda>c. c \<noteq> CHR ''_'') name"

text \<open>\<^verbatim>\<open>QuerySampler.ranking_step\<close>.\<close>

definition ranking_step ::
  "'x query_sampler \<Rightarrow> ('x, 'r) imports_env \<Rightarrow> 'x list list \<Rightarrow> ('x \<times> int) list list
     \<Rightarrow> error + (nat list \<times> real list)" where
  "ranking_step qs env pool_loader labeled_loader =
     (if method_prefix (acq_method qs) \<in> set (uncertainty_names env) then
        uncertainty_query_sampler env (m qs) pool_loader (acq_size qs)
      else if method_prefix (acq_method qs) \<in> set (diversity_names env) then
        diversity_query_sampler env labeled_loader pool_loader (acq_size qs)
      else Inl NotImplementedError)"

text \<open>
  The stable descending sort of the specification's wording: \<open>sort_key\<close> is stable, and
  the key is the negated score.
\<close>

definition stable_desc_sort :: "(nat \<times> real) list \<Rightarrow> (nat \<times> real) list" where
  "stable_desc_sort es = sort_key (\<lambda>e. - snd e) es"


text \<open>
  The scores of the whole pool in encounter order, and the whole pool ranked: the
  stable descending sort of every (index, score) pair.
\<close>

definition pool_scores :: "('x, 'r) imports_env \<Rightarrow> nat \<Rightarrow> 'x list list \<Rightarrow> real list" where
  "pool_scores env passes loader = map (score_sample env passes) (concat loader)"

definition full_ranking ::
  "('x, 'r) imports_env \<Rightarrow> nat \<Rightarrow> 'x list list \<Rightarrow> (nat \<times> real) list" where
  "full_ranking env passes loader =
     stable_desc_sort (zip [0 ..< pool_size loader] (pool_scores env passes loader))"

text \<open>
  The order of a ranking: a strictly higher score first, and of two equal scores the
  lower index first.
\<close>

definition ranked_before :: "nat \<times> real \<Rightarrow> nat \<times> real \<Rightarrow> bool" where
  "ranked_before a b = (snd b < snd a \<or> (snd a = snd b \<and> fst a < fst b))"

subsection \<open>The orchestrator\<close>

text \<open>
  Modelled from the spec: \<^verbatim>\<open>datamodule.get_pool_indices\<close>, a method of the data module
  (\<^verbatim>\<open>data.base_datamodule\<close>, not among the sources). A pure translation that keeps
  order and cardinality: the data source's index map, applied to every index.
\<close>

definition get_pool_indices :: "'x datamodule \<Rightarrow> nat list \<Rightarrow> nat list" where
  "get_pool_indices dm inds = map (pool_index dm) inds"

text \<open>
  \<^verbatim>\<open>QuerySampler.query_samples\<close>. The data module is passed through: the result is the
  outcome together with the data module as the call leaves it.
\<close>

definition query_samples ::
  "'x query_sampler \<Rightarrow> ('x, 'r) imports_env \<Rightarrow> 'x datamodule
     \<Rightarrow> (error + (nat list \<times> real list)) \<times> 'x datamodule" where
  "query_samples qs env dm =
     (let pool_loader = pool_dataloader dm (batch_size dm) (m qs);
          labeled_loader = labeled_dataloader dm (batch_size dm)
      in case ranking_step qs env pool_loader labeled_loader of
           Inl e \<Rightarrow> (Inl e, dm)
         | Inr (acq_inds, acq_vals) \<Rightarrow> (Inr (get_pool_indices dm acq_inds, acq_vals), dm))"

text \<open>
  \<^verbatim>\<open>obtain_data_from_pool\<close>. The loop appends the input and the label of
  \<^verbatim>\<open>pool[ind]\<close> for every index in turn; an index outside the pool raises. After the
  loop \<^verbatim>\<open>torch.stack\<close> raises on an empty list and on inputs that do not all have one
  shape, and \<^verbatim>\<open>torch.tensor(labels, dtype=torch.int)\<close> raises on a label outside the
  32-bit signed range. The pool is passed through.
\<close>

fun obtain_loop ::
  "('x \<times> int) list \<Rightarrow> nat list \<Rightarrow> 'x list \<Rightarrow> int list
     \<Rightarrow> (error + ('x list \<times> int list)) \<times> ('x \<times> int) list" where
  "obtain_loop pl [] data labs = (Inr (data, labs), pl)"
| "obtain_loop pl (ind # rest) data labs =
     (if ind < length pl then
        (let sample = pl ! ind
         in obtain_loop pl rest (data @ [fst sample]) (labs @ [snd sample]))
      else (Inl IndexError, pl))"

definition int32_range :: "int \<Rightarrow> bool" where
  "int32_range y = (- (2 ^ 31) \<le> y \<and> y < 2 ^ 31)"

definition obtain_data_from_pool ::
  "('x \<Rightarrow> nat list) \<Rightarrow> ('x \<times> int) list \<Rightarrow> nat list
     \<Rightarrow> (error + ('x list \<times> int list)) \<times> ('x \<times> int) list" where
  "obtain_data_from_pool shp pl indices =
     (case obtain_loop pl indices [] [] of
        (Inl e, pl') \<Rightarrow> (Inl e, pl')
      | (Inr (data, labs), pl') \<Rightarrow>
          if data = [] then (Inl RuntimeError, pl')
          else if \<not> list_all (\<lambda>x. shp x = shp (hd data)) data then (Inl RuntimeError, pl')
          else if \<not> list_all int32_range labs then (Inl RuntimeError, pl')
          else (Inr (data, labs), pl'))"

text \<open>
  \<^verbatim>\<open>evaluate_accuracy\<close>. A batch is a list of (input, label) pairs; the loop adds the
  batch's number of correct predictions to \<^verbatim>\<open>correct\<close> and its size to \<^verbatim>\<open>counts\<close>.
  The final division raises when \<^verbatim>\<open>counts\<close> is zero.
\<close>

fun accuracy_loop ::
  "('x \<Rightarrow> int) \<Rightarrow> ('x \<times> int) list list \<Rightarrow> nat \<Rightarrow> nat \<Rightarrow> nat \<times> nat" where
  "accuracy_loop mdl [] counts correct = (counts, correct)"
| "accuracy_loop mdl (batch # rest) counts correct =
     accuracy_loop mdl rest (counts + length batch)
       (correct + length (filter (\<lambda>(x, y). mdl x = y) batch))"

definition evaluate_accuracy ::
  "('x \<Rightarrow> int) \<Rightarrow> ('x \<times> int) list list option \<Rightarrow> error + real" where
  "evaluate_accuracy mdl dataloader =
     (case dataloader of
        None \<Rightarrow> Inr 0
      | Some batches \<Rightarrow>
          (case accuracy_loop mdl batches 0 0 of
             (counts, correct) \<Rightarrow>
               if counts = 0 then Inl ZeroDivisionError
               else Inr (real correct / real counts)))"

text \<open>The decimal numeral of a count, as the format string prints it.\<close>

fun str_nat :: "nat \<Rightarrow> string" where
  "str_nat n =
     (if n < 10 then [char_of (48 + n)] else str_nat (n div 10) @ [char_of (48 + n mod 10)])"

declare str_nat.simps [simp del]

text \<open>
  \<^verbatim>\<open>vis_callback\<close>. The two figures are drawn and saved in turn under
  \<^verbatim>\<open>os.path.join(".", ...)\<close>; the first call that raises ends the function with its
  error. \<^verbatim>\<open>plt.clf()\<close> only resets the figure. The argument \<^verbatim>\<open>n_labelled\<close> is
  not used by the body.
\<close>

definition vis_callback ::
  "('x, 'r) imports_env \<Rightarrow> nat \<Rightarrow> int list \<Rightarrow> 'x list \<Rightarrow> real list \<Rightarrow> nat \<Rightarrow> nat option
     \<Rightarrow> error + unit" where
  "vis_callback env n acq_labels acq_data acq_vals n_classes cnt =
     (let suffix = (case cnt of None \<Rightarrow> [] | Some c \<Rightarrow> ''_'' @ str_nat c)
      in case normalize env acq_data of
           Inl e \<Rightarrow> Inl e
         | Inr normalized \<Rightarrow>
             (case visualize_samples env normalized acq_vals of
                Inl e \<Rightarrow> Inl e
              | Inr u \<Rightarrow>
                  (case savefig env (''./labeled_samples'' @ suffix @ ''.pdf'') of
                     Inl e \<Rightarrow> Inl e
                   | Inr u \<Rightarrow>
                       (case visualize_labels env acq_labels n_classes of
                          Inl e \<Rightarrow> Inl e
                        | Inr u \<Rightarrow> savefig env (''./labelled_targets'' @ suffix @ ''.pdf'')))))"

text \<open>The line printed when the visualization raised.\<close>

definition vis_warning :: string where
  "vis_warning =
     ''No Visualization with vis_callback function possible! '' @ [CHR 0x0A]
       @ '' Trying to Continue''"

text \<open>
  \<^verbatim>\<open>QuerySampler.active_callback\<close>. The result is the outcome (an error or the
  ActiveStore), the data module as the call leaves it, and the lines printed.
\<close>

definition active_callback ::
  "'x query_sampler \<Rightarrow> ('x, 'r) imports_env \<Rightarrow> 'x datamodule \<Rightarrow> bool
     \<Rightarrow> (error + active_store) \<times> 'x datamodule \<times> string list" where
  "active_callback qs env dm vis =
     (case query_samples qs env dm of
        (Inl e, dm1) \<Rightarrow> (Inl e, dm1, [])
      | (Inr (acq_inds, acq_vals), dm1) \<Rightarrow>
          (case obtain_data_from_pool (shape env) (pool (train_set dm1)) acq_inds of
             (Inl e, pl') \<Rightarrow> (Inl e, dm1\<lparr>train_set := (train_set dm1)\<lparr>pool := pl'\<rparr>\<rparr>, [])
           | (Inr (acq_data, acq_labels), pl') \<Rightarrow>
               (let dm2 = dm1\<lparr>train_set := (train_set dm1)\<lparr>pool := pl'\<rparr>\<rparr>;
                    n = train_n_labelled (train_set dm2)
                in case evaluate_accuracy (model qs) (val_dataloader dm2) of
                     Inl e \<Rightarrow> (Inl e, dm2, [])
                   | Inr acc_val \<Rightarrow>
                       (case evaluate_accuracy (model qs) (test_dataloader dm2) of
                          Inl e \<Rightarrow> (Inl e, dm2, [])
                        | Inr acc_test \<Rightarrow>
                            (let printed =
                                   (if vis then
                                      (case vis_callback env n acq_labels acq_data acq_vals
                                              (num_classes dm2) (count_opt qs) of
                                         Inl e \<Rightarrow> [vis_warning]
                                       | Inr u \<Rightarrow> [])
                                    else [])
                             in (Inr \<lparr>requests = acq_inds, n_labelled = n,
                                      accuracy_val = acc_val, accuracy_test = acc_test,
                                      labels = acq_labels\<rparr>,
                                 dm2, printed))))))"

subsection \<open>A concrete round\<close>

text \<open>
  The scenario of the specification: a pool of ten samples in three batches whose
  scores are 0.1, 0.9, 0.3, 0.9, 0.2, 0.05, 0.4, 0.9, 0.6, 0.0. An input is its own
  score; there is one stochastic pass, reduced by summation. The diversity selection
  takes the first indices of the pool; saving a figure always fails; an input is a
  scalar, so its shape is empty.
\<close>

definition ex_loader :: "real list list" where
  "ex_loader = [[1/10, 9/10, 3/10, 9/10], [2/10, 5/100, 4/10, 9/10], [6/10, 0]]"

definition ex_env :: "(real, real) imports_env" where
  "ex_env =
     \<lparr>uncertainty_names = [''entropy'', ''bald''],
      diversity_names = [''kcenter''],
      acq_fn = (\<lambda>pass x. x),
      post_acq_fn = sum_list,
      diversity_select =
        (\<lambda>ll pl k. (take k [0 ..< pool_size pl], replicate (min k (pool_size pl)) 0)),
      normalize = Inr,
      visualize_samples = (\<lambda>ds vs. Inr ()),
      visualize_labels = (\<lambda>ls c. Inr ()),
      savefig = (\<lambda>path. Inl PlotError),
      shape = (\<lambda>x. [])\<rparr>"

definition ex_sampler :: "real query_sampler" where
  "ex_sampler =
     \<lparr>m = 1, acq_size = 3, acq_method = ''entropy_mc'',
      model = (\<lambda>x. if x < 1/2 then 0 else 1), count_opt = Some 3\<rparr>"

text \<open>
  A data module for the scenario: the pool holds the ten samples and five more, the
  pool-local index \<open>i\<close> is the pool's index \<open>i + 5\<close>, the validation loader is one batch
  and the test loader is absent.
\<close>

definition ex_datamodule :: "real datamodule" where
  "ex_datamodule =
     \<lparr>batch_size = 4, num_classes = 2,
      train_set =
        \<lparr>pool = map (\<lambda>x. (x, if x < 1/2 then 0 else 1))
                  ([1, 1, 0, 0, 1] @ concat ex_loader),
         train_n_labelled = 7\<rparr>,
      pool_dataloader = (\<lambda>b passes. ex_loader),
      labeled_dataloader = (\<lambda>b. []),
      pool_index = (\<lambda>i. i + 5),
      val_dataloader = Some [[(1/10, 0), (9/10, 0), (3/10, 0), (6/10, 1)]],
      test_dataloader = None\<rparr>"






section \<open>The ranking engine selects by a stable descending sort\<close>

text \<open>
  The accumulated pairs carry the indices \<open>0, 1, \<dots>\<close> in encounter order; the bounded
  running structure computes the first \<open>k\<close> entries of the stable descending sort; that
  sort puts a higher score first and, among equal scores, the lower index first.
\<close>


lemma fst_accumulate:
  "map fst (accumulate sc off loader) = [off ..< off + pool_size loader]"
proof (induction loader arbitrary: off)
  case Nil
  show ?case by (simp add: pool_size_def)
next
  case (Cons batch rest)
  have "map fst (zip [off ..< off + length batch] (map sc batch)) = [off ..< off + length batch]"
    by (simp add: map_fst_zip)
  moreover have "[off ..< off + length batch] @ [off + length batch ..< off + length batch + pool_size rest]
      = [off ..< off + length batch + pool_size rest]"
    by (metis le_add1 upt_add_eq_append)
  ultimately show ?case
    using Cons.IH [of "off + length batch"] by (simp add: pool_size_def add.assoc)
qed

lemma snd_accumulate:
  "map snd (accumulate sc off loader) = map sc (concat loader)"
  by (induction loader arbitrary: off) (simp_all add: map_snd_zip)

lemma accumulate_zip:
  "accumulate sc 0 loader = zip [0 ..< pool_size loader] (map sc (concat loader))"
proof -
  have "accumulate sc 0 loader = zip (map fst (accumulate sc 0 loader)) (map snd (accumulate sc 0 loader))"
    by (simp add: zip_map_fst_snd)
  then show ?thesis by (simp add: fst_accumulate snd_accumulate)
qed

lemma take_Cons_take: "take j (h # take j t) = take j (h # t)"
  by (cases j) (simp_all add: min_def)

lemma take_insert_ranked:
  "take k (insert_ranked e (take k xs)) = take k (insert_ranked e xs)"
proof (induction xs arbitrary: k)
  case Nil
  show ?case by (cases k) simp_all
next
  case (Cons h t)
  show ?case
  proof (cases k)
    case 0
    then show ?thesis by simp
  next
    case (Suc j)
    then show ?thesis using Cons.IH [of j] by (simp add: take_Cons_take)
  qed
qed

lemma top_k_fold:
  "foldl (\<lambda>acc e. take k (insert_ranked e acc)) (take k a) es
     = take k (foldl (\<lambda>acc e. insert_ranked e acc) a es)"
proof (induction es arbitrary: a)
  case Nil
  show ?case by simp
next
  case (Cons e es)
  show ?case using Cons.IH [of "insert_ranked e a"] by (simp add: take_insert_ranked)
qed

lemma mset_insert_ranked: "mset (insert_ranked e xs) = add_mset e (mset xs)"
  by (induction xs) simp_all

lemma set_insert_ranked: "set (insert_ranked e xs) = insert e (set xs)"
  by (induction xs) auto

lemma sorted_insert_ranked:
  "sorted (map (\<lambda>e. - snd e) xs) \<Longrightarrow> sorted (map (\<lambda>e. - snd e) (insert_ranked e xs))"
  by (induction xs) (auto simp: set_insert_ranked)

lemma filter_insert_ranked:
  "sorted (map (\<lambda>e. - snd e) xs) \<Longrightarrow>
   filter (\<lambda>x. c = snd x) (insert_ranked e xs)
     = (if c = snd e then filter (\<lambda>x. c = snd x) xs @ [e] else filter (\<lambda>x. c = snd x) xs)"
proof (induction xs)
  case Nil
  show ?case by simp
next
  case (Cons h t)
  show ?case
  proof (cases "snd e \<le> snd h")
    case True
    moreover have "sorted (map (\<lambda>e. - snd e) t)" using Cons.prems by simp
    ultimately show ?thesis using Cons.IH by (cases "c = snd e") auto
  next
    case False
    then have "\<forall>x \<in> set (h # t). snd x < snd e" using Cons.prems by auto
    then have "c = snd e \<Longrightarrow> filter (\<lambda>x. c = snd x) (h # t) = []"
      by (auto simp: filter_empty_conv)
    then show ?thesis using False by auto
  qed
qed


lemma fold_insert_sorted:
  "sorted (map (\<lambda>e. - snd e) (foldl (\<lambda>acc e. insert_ranked e acc) [] es))"
  by (induction es rule: rev_induct) (simp_all add: sorted_insert_ranked)

lemma fold_insert_mset:
  "mset (foldl (\<lambda>acc e. insert_ranked e acc) [] es) = mset es"
  by (induction es rule: rev_induct) (simp_all add: mset_insert_ranked)

lemma fold_insert_filter:
  "filter (\<lambda>x. c = snd x) (foldl (\<lambda>acc e. insert_ranked e acc) [] es) = filter (\<lambda>x. c = snd x) es"
proof (induction es rule: rev_induct)
  case Nil
  show ?case by simp
next
  case (snoc e es)
  show ?case
    using snoc.IH filter_insert_ranked [OF fold_insert_sorted, of c e es]
    by (cases "c = snd e") simp_all
qed

lemma fold_insert_sort:
  "foldl (\<lambda>acc e. insert_ranked e acc) [] es = stable_desc_sort es"
  unfolding stable_desc_sort_def
proof (rule properties_for_sort_key [symmetric])
  show "mset (foldl (\<lambda>acc e. insert_ranked e acc) [] es) = mset es"
    by (rule fold_insert_mset)
  show "sorted (map (\<lambda>e. - snd e) (foldl (\<lambda>acc e. insert_ranked e acc) [] es))"
    by (rule fold_insert_sorted)
  fix k
  show "filter (\<lambda>x. - snd k = - snd x) (foldl (\<lambda>acc e. insert_ranked e acc) [] es)
      = filter (\<lambda>x. - snd k = - snd x) es"
    using fold_insert_filter [of "snd k" es] by simp
qed

lemma top_k_sort: "top_k k es = take k (stable_desc_sort es)"
  using top_k_fold [of k "[]" es] by (simp add: top_k_def fold_insert_sort)


lemma ranked_insert:
  "sorted_wrt ranked_before ys \<Longrightarrow> \<forall>y \<in> set ys. fst y < fst e \<Longrightarrow>
   sorted_wrt ranked_before (insert_ranked e ys)"
proof (induction ys)
  case Nil
  show ?case by simp
next
  case (Cons h t)
  show ?case
  proof (cases "snd e \<le> snd h")
    case True
    then have "ranked_before h e" using Cons.prems(2) by (auto simp: ranked_before_def)
    then show ?thesis using True Cons by (auto simp: set_insert_ranked)
  next
    case False
    then have "ranked_before e h" by (simp add: ranked_before_def)
    moreover have "\<forall>x \<in> set t. ranked_before e x"
      using False Cons.prems(1) by (auto simp: ranked_before_def)
    ultimately show ?thesis using False Cons.prems(1) by simp
  qed
qed

lemma fold_insert_set: "set (foldl (\<lambda>acc e. insert_ranked e acc) [] es) = set es"
  using fold_insert_mset [of es] by (metis set_mset_mset)

lemma fold_insert_ranked:
  "sorted_wrt (<) (map fst es) \<Longrightarrow>
   sorted_wrt ranked_before (foldl (\<lambda>acc e. insert_ranked e acc) [] es)"
proof (induction es rule: rev_induct)
  case Nil
  show ?case by simp
next
  case (snoc e es)
  from snoc.prems have incr: "sorted_wrt (<) (map fst es)" and last: "\<forall>x \<in> set es. fst x < fst e"
    by (auto simp: sorted_wrt_append)
  show ?case
    using ranked_insert [OF snoc.IH [OF incr], of e] last by (simp add: fold_insert_set)
qed

lemma sort_ranked:
  "sorted_wrt (<) (map fst es) \<Longrightarrow> sorted_wrt ranked_before (stable_desc_sort es)"
  using fold_insert_ranked [of es] by (simp add: fold_insert_sort)

lemma sort_set: "set (stable_desc_sort es) = set es"
  by (simp add: stable_desc_sort_def)





lemma length_pool_scores: "length (pool_scores env passes loader) = pool_size loader"
  by (simp add: pool_scores_def pool_size_def)





lemma full_ranking_ranked: "sorted_wrt ranked_before (full_ranking env passes loader)"
  unfolding full_ranking_def
  by (rule sort_ranked) (simp add: map_fst_zip length_pool_scores)

lemma full_ranking_mem:
  "j < pool_size loader \<Longrightarrow>
   (j, pool_scores env passes loader ! j) \<in> set (full_ranking env passes loader)"
proof -
  assume j: "j < pool_size loader"
  have "zip [0 ..< pool_size loader] (pool_scores env passes loader) ! j
      = (j, pool_scores env passes loader ! j)"
    using j by (simp add: length_pool_scores)
  moreover have "j < length (zip [0 ..< pool_size loader] (pool_scores env passes loader))"
    using j by (simp add: length_pool_scores)
  ultimately have "(j, pool_scores env passes loader ! j)
      \<in> set (zip [0 ..< pool_size loader] (pool_scores env passes loader))"
    by (metis nth_mem)
  then show ?thesis by (simp add: full_ranking_def sort_set)
qed

lemma selected_before_unselected:
  assumes "x \<in> set (take k (full_ranking env passes loader))"
    and "y \<in> set (drop k (full_ranking env passes loader))"
  shows "ranked_before x y"
proof -
  have "sorted_wrt ranked_before
      (take k (full_ranking env passes loader) @ drop k (full_ranking env passes loader))"
    using full_ranking_ranked [of env passes loader] by simp
  then show ?thesis using assms unfolding sorted_wrt_append by blast
qed

lemma unselected_in_drop:
  assumes "j < pool_size loader"
    and "j \<notin> set (map fst (take k (full_ranking env passes loader)))"
  shows "(j, pool_scores env passes loader ! j) \<in> set (drop k (full_ranking env passes loader))"
proof -
  have "(j, pool_scores env passes loader ! j)
      \<in> set (take k (full_ranking env passes loader) @ drop k (full_ranking env passes loader))"
    using full_ranking_mem [OF assms(1)] by simp
  then have "(j, pool_scores env passes loader ! j) \<in> set (take k (full_ranking env passes loader))
      \<or> (j, pool_scores env passes loader ! j) \<in> set (drop k (full_ranking env passes loader))"
    by (simp only: set_append Un_iff)
  moreover have "(j, pool_scores env passes loader ! j) \<notin> set (take k (full_ranking env passes loader))"
    using assms(2) by (metis fst_conv image_eqI set_map)
  ultimately show ?thesis by blast
qed

lemma uncertainty_query_sampler_eq:
  "uncertainty_query_sampler env passes loader k =
     (if pool_size loader = 0 then Inl EmptyPool
      else Inr (map fst (take k (full_ranking env passes loader)),
                map snd (take k (full_ranking env passes loader))))"
proof -
  have acc: "accumulate (score_sample env passes) 0 loader
      = zip [0 ..< pool_size loader] (pool_scores env passes loader)"
    by (simp add: accumulate_zip pool_scores_def)
  have "(zip [0 ..< pool_size loader] (pool_scores env passes loader) = []) = (pool_size loader = 0)"
    using length_pool_scores [of env passes loader]
    by (metis diff_zero length_0_conv length_upt length_zip min.idem)
  then show ?thesis
    by (simp add: uncertainty_query_sampler_def acc top_k_sort full_ranking_def Let_def)
qed



section \<open>Claims about the ranking round\<close>



text \<open>
  C2. Under the uncertainty policy the selection of a ranking round is the stable
  descending sort of all (index, score) pairs of the pool, cut to the acquisition size.
  Hence the returned scores are in descending order, no unselected entry has a score
  above a selected one, of two selected entries with the same score the one with the
  lower index is ranked first, and an unselected entry that ties with a selected one has
  the higher index.
\<close>

theorem uncertainty_ranking_stable_sort:
  assumes "method_prefix (acq_method qs) \<in> set (uncertainty_names env)"
    and "ranking_step qs env pool_loader labeled_loader = Inr (inds, vals)"
  shows "zip inds vals = take (acq_size qs) (stable_desc_sort
            (zip [0 ..< pool_size pool_loader] (pool_scores env (m qs) pool_loader)))
       \<and> sorted_wrt (\<ge>) vals
       \<and> (\<forall>j < pool_size pool_loader. j \<notin> set inds \<longrightarrow>
            (\<forall>v \<in> set vals. pool_scores env (m qs) pool_loader ! j \<le> v))
       \<and> (\<forall>a b. a < b \<and> b < length inds \<and> vals ! a = vals ! b \<longrightarrow> inds ! a < inds ! b)
       \<and> (\<forall>a j. a < length inds \<and> j < pool_size pool_loader \<and> j \<notin> set inds
             \<and> pool_scores env (m qs) pool_loader ! j = vals ! a \<longrightarrow> inds ! a < j)"
proof -
  let ?S = "full_ranking env (m qs) pool_loader"
  let ?sel = "take (acq_size qs) ?S"
  let ?sc = "pool_scores env (m qs) pool_loader"
  from assms have inds: "inds = map fst ?sel" and vals: "vals = map snd ?sel"
    by (simp_all add: ranking_step_def uncertainty_query_sampler_eq split: if_splits)
  have c1: "zip inds vals = take (acq_size qs) (stable_desc_sort
            (zip [0 ..< pool_size pool_loader] ?sc))"
    unfolding inds vals by (simp add: zip_map_fst_snd full_ranking_def)
  have rk: "sorted_wrt ranked_before ?sel"
    using full_ranking_ranked [of env "m qs" pool_loader] by (rule sorted_wrt_take)
  have "sorted_wrt (\<lambda>x y. snd x \<ge> snd y) ?sel"
    by (rule sorted_wrt_mono_rel [OF _ rk]) (auto simp: ranked_before_def)
  then have c2: "sorted_wrt (\<ge>) vals"
    unfolding vals by (simp add: sorted_wrt_map)
  have un: "ranked_before x (j, ?sc ! j)"
    if "j < pool_size pool_loader" and "j \<notin> set inds" and "x \<in> set ?sel" for j x
    using selected_before_unselected [OF that(3)] unselected_in_drop [OF that(1)] that(2)
    unfolding inds by blast
  have c3: "\<forall>j < pool_size pool_loader. j \<notin> set inds \<longrightarrow> (\<forall>v \<in> set vals. ?sc ! j \<le> v)"
    unfolding vals using un by (fastforce simp: ranked_before_def)
  have nth: "?sel ! a = (inds ! a, vals ! a)" if "a < length inds" for a
    using that unfolding inds vals by simp
  have c4: "\<forall>a b. a < b \<and> b < length inds \<and> vals ! a = vals ! b \<longrightarrow> inds ! a < inds ! b"
  proof (intro allI impI)
    fix a b
    assume h: "a < b \<and> b < length inds \<and> vals ! a = vals ! b"
    then have "b < length ?sel" unfolding inds by simp
    with rk h have "ranked_before (?sel ! a) (?sel ! b)"
      by (simp add: sorted_wrt_iff_nth_less)
    then show "inds ! a < inds ! b"
      using h nth [of a] nth [of b] by (simp add: ranked_before_def)
  qed
  have c5: "\<forall>a j. a < length inds \<and> j < pool_size pool_loader \<and> j \<notin> set inds
             \<and> ?sc ! j = vals ! a \<longrightarrow> inds ! a < j"
  proof (intro allI impI)
    fix a j
    assume h: "a < length inds \<and> j < pool_size pool_loader \<and> j \<notin> set inds \<and> ?sc ! j = vals ! a"
    then have "a < length ?sel" unfolding inds by simp
    then have "?sel ! a \<in> set ?sel" by (rule nth_mem)
    with h have "ranked_before (?sel ! a) (j, ?sc ! j)" using un by blast
    then show "inds ! a < j" using h nth [of a] by (simp add: ranked_before_def)
  qed
  from c1 c2 c3 c4 c5 show ?thesis by blast
qed

theorem uncertainty_ranking_stable_sort_witness:
  "method_prefix (acq_method ex_sampler) \<in> set (uncertainty_names ex_env)
   \<and> ranking_step ex_sampler ex_env ex_loader [] = Inr ([1, 3, 7], [9/10, 9/10, 9/10])
   \<and> zip [1, 3, 7] [9/10, 9/10, 9/10]
       = take (acq_size ex_sampler) (stable_desc_sort
           (zip [0 ..< pool_size ex_loader] (pool_scores ex_env (m ex_sampler) ex_loader)))
   \<and> sorted_wrt (\<ge>) [9/10, 9/10, 9/10 :: real]
   \<and> pool_scores ex_env (m ex_sampler) ex_loader ! 8 \<le> 9/10
   \<and> [1, 3, 7 :: nat] ! 0 < [1, 3, 7] ! 1
   \<and> [1, 3, 7 :: nat] ! 1 < [1, 3, 7] ! 2"
proof -
  have h: "method_prefix (acq_method ex_sampler) \<in> set (uncertainty_names ex_env)"
    by (simp add: ex_sampler_def ex_env_def method_prefix_def)
  have r: "ranking_step ex_sampler ex_env ex_loader [] = Inr ([1, 3, 7], [9/10, 9/10, 9/10])"
    by code_simp
  have p: "pool_size ex_loader = 10"
    by (simp add: pool_size_def ex_loader_def)
  note t = uncertainty_ranking_stable_sort [OF h r]
  from t have c1: "zip [1, 3, 7] [9/10, 9/10, 9/10]
       = take (acq_size ex_sampler) (stable_desc_sort
           (zip [0 ..< pool_size ex_loader] (pool_scores ex_env (m ex_sampler) ex_loader)))"
    by blast
  from t have "\<forall>j < pool_size ex_loader. j \<notin> set [1, 3, 7] \<longrightarrow>
      (\<forall>v \<in> set [9/10, 9/10, 9/10]. pool_scores ex_env (m ex_sampler) ex_loader ! j \<le> v)"
    by blast
  then have c3: "pool_scores ex_env (m ex_sampler) ex_loader ! 8 \<le> 9/10"
    using p by simp
  from t have "\<forall>a b. a < b \<and> b < length [1, 3, 7 :: nat]
       \<and> [9/10, 9/10, 9/10 :: real] ! a = [9/10, 9/10, 9/10] ! b \<longrightarrow> [1, 3, 7 :: nat] ! a < [1, 3, 7] ! b"
    by blast
  then have c4: "[1, 3, 7 :: nat] ! 0 < [1, 3, 7] ! 1 \<and> [1, 3, 7 :: nat] ! 1 < [1, 3, 7] ! 2"
    by simp
  from t have c2: "sorted_wrt (\<ge>) [9/10, 9/10, 9/10 :: real]" by blast
  from h r c1 c2 c3 c4 show ?thesis by blast
qed

section \<open>The orchestrator: helper facts\<close>

lemma obtain_loop_pool: "snd (obtain_loop pl inds data labs) = pl"
  by (induction inds arbitrary: data labs) (simp_all add: Let_def)

lemma obtain_loop_in_range:
  "list_all (\<lambda>i. i < length pl) inds \<Longrightarrow>
   obtain_loop pl inds data labs
     = (Inr (data @ map (\<lambda>i. fst (pl ! i)) inds, labs @ map (\<lambda>i. snd (pl ! i)) inds), pl)"
  by (induction inds arbitrary: data labs) (simp_all add: Let_def)

lemma obtain_loop_out_of_range:
  "\<not> list_all (\<lambda>i. i < length pl) inds \<Longrightarrow>
   obtain_loop pl inds data labs = (Inl IndexError, pl)"
  by (induction inds arbitrary: data labs) (simp_all add: Let_def)

lemma obtain_data_from_pool_eq:
  "obtain_data_from_pool shp pl inds =
     (if \<not> list_all (\<lambda>i. i < length pl) inds then (Inl IndexError, pl)
      else if inds = [] then (Inl RuntimeError, pl)
      else if \<not> list_all (\<lambda>x. shp x = shp (hd (map (\<lambda>i. fst (pl ! i)) inds)))
                (map (\<lambda>i. fst (pl ! i)) inds) then (Inl RuntimeError, pl)
      else if \<not> list_all int32_range (map (\<lambda>i. snd (pl ! i)) inds) then (Inl RuntimeError, pl)
      else (Inr (map (\<lambda>i. fst (pl ! i)) inds, map (\<lambda>i. snd (pl ! i)) inds), pl))"
  by (simp add: obtain_data_from_pool_def obtain_loop_in_range obtain_loop_out_of_range)

lemma obtain_data_from_pool_frame: "snd (obtain_data_from_pool shp pl inds) = pl"
  by (simp add: obtain_data_from_pool_eq)

lemma obtain_data_from_pool_Inr:
  assumes "obtain_data_from_pool shp pl inds = (Inr (data, labs), pl')"
  shows "list_all (\<lambda>i. i < length pl) inds \<and> inds \<noteq> [] \<and> pl' = pl
     \<and> data = map (\<lambda>i. fst (pl ! i)) inds \<and> labs = map (\<lambda>i. snd (pl ! i)) inds"
  using assms unfolding obtain_data_from_pool_eq by (auto split: if_splits)

lemma query_samples_eq:
  "query_samples qs env dm =
     (case ranking_step qs env (pool_dataloader dm (batch_size dm) (m qs))
             (labeled_dataloader dm (batch_size dm)) of
        Inl e \<Rightarrow> (Inl e, dm)
      | Inr sel \<Rightarrow> (Inr (get_pool_indices dm (fst sel), snd sel), dm))"
  by (simp add: query_samples_def Let_def split: sum.splits prod.splits)

lemma query_samples_frame: "snd (query_samples qs env dm) = dm"
  by (simp add: query_samples_eq split: sum.splits)

lemma active_callback_error:
  "query_samples qs env dm = (Inl e, dm') \<Longrightarrow> active_callback qs env dm vis = (Inl e, dm', [])"
  by (simp add: active_callback_def)

lemma active_callback_frame: "fst (snd (active_callback qs env dm vis)) = dm"
proof (cases "query_samples qs env dm")
  case (Pair r dm1)
  then have dm1: "dm1 = dm" using query_samples_frame [of qs env dm] by simp
  show ?thesis
  proof (cases r)
    case (Inl e)
    then show ?thesis using Pair dm1 by (simp add: active_callback_def)
  next
    case (Inr sel)
    obtain inds vals where sel: "sel = (inds, vals)" by (cases sel)
    obtain o1 pl' where ob: "obtain_data_from_pool (shape env) (pool (train_set dm)) inds = (o1, pl')"
      by (cases "obtain_data_from_pool (shape env) (pool (train_set dm)) inds")
    then have pl': "pl' = pool (train_set dm)"
      using obtain_data_from_pool_frame [of "shape env" "pool (train_set dm)" inds] by simp
    show ?thesis
      using Pair dm1 Inr sel ob pl'
      by (simp add: active_callback_def Let_def split: sum.splits prod.splits)
  qed
qed

lemma active_callback_Inr:
  assumes "fst (active_callback qs env dm vis) = Inr store"
  shows "\<exists>inds vals data labs av atst.
      query_samples qs env dm = (Inr (inds, vals), dm)
    \<and> obtain_data_from_pool (shape env) (pool (train_set dm)) inds = (Inr (data, labs), pool (train_set dm))
    \<and> evaluate_accuracy (model qs) (val_dataloader dm) = Inr av
    \<and> evaluate_accuracy (model qs) (test_dataloader dm) = Inr atst
    \<and> store = \<lparr>requests = inds, n_labelled = train_n_labelled (train_set dm),
                accuracy_val = av, accuracy_test = atst, labels = labs\<rparr>"
proof (cases "query_samples qs env dm")
  case (Pair r dm1)
  then have dm1: "dm1 = dm" using query_samples_frame [of qs env dm] by simp
  show ?thesis
  proof (cases r)
    case (Inl e)
    then show ?thesis using assms Pair by (simp add: active_callback_def)
  next
    case (Inr sel)
    obtain inds vals where sel: "sel = (inds, vals)" by (cases sel)
    obtain o1 pl' where ob: "obtain_data_from_pool (shape env) (pool (train_set dm)) inds = (o1, pl')"
      by (cases "obtain_data_from_pool (shape env) (pool (train_set dm)) inds")
    then have pl': "pl' = pool (train_set dm)"
      using obtain_data_from_pool_frame [of "shape env" "pool (train_set dm)" inds] by simp
    show ?thesis
      using assms Pair dm1 Inr sel ob pl'
      by (auto simp: active_callback_def Let_def split: sum.splits prod.splits)
  qed
qed

lemma active_callback_vis_irrelevant:
  "fst (active_callback qs env dm True) = fst (active_callback qs env dm False)"
  by (simp add: active_callback_def Let_def split: sum.splits prod.splits)

lemma accuracy_loop_eq:
  "accuracy_loop mdl batches counts correct =
     (counts + pool_size batches,
      correct + length (filter (\<lambda>(x, y). mdl x = y) (concat batches)))"
  by (induction batches arbitrary: counts correct) (simp_all add: pool_size_def)

lemma evaluate_accuracy_eq:
  "evaluate_accuracy mdl (Some batches) =
     (if pool_size batches = 0 then Inl ZeroDivisionError
      else Inr (real (length (filter (\<lambda>(x, y). mdl x = y) (concat batches)))
                / real (pool_size batches)))"
  by (simp add: evaluate_accuracy_def accuracy_loop_eq)

lemma evaluate_accuracy_absent: "evaluate_accuracy mdl None = Inr 0"
  by (simp add: evaluate_accuracy_def)

lemma evaluate_accuracy_range:
  assumes "evaluate_accuracy mdl dataloader = Inr a"
  shows "0 \<le> a \<and> a \<le> 1"
proof (cases dataloader)
  case None
  then show ?thesis using assms by (simp add: evaluate_accuracy_def)
next
  case (Some batches)
  have "length (filter (\<lambda>(x, y). mdl x = y) (concat batches)) \<le> pool_size batches"
    unfolding pool_size_def by (rule length_filter_le)
  then show ?thesis
    using assms Some by (auto simp: evaluate_accuracy_eq divide_le_eq split: if_splits)
qed

lemma evaluate_accuracy_returns:
  "0 < pool_size batches \<Longrightarrow> \<exists>a. evaluate_accuracy mdl (Some batches) = Inr a"
  by (simp add: evaluate_accuracy_eq)

section \<open>Claims about the orchestrator\<close>

text \<open>
  C3. \<^verbatim>\<open>query_samples\<close> returns the ranking round's indices with the data source's
  index translation applied to each of them, and the round's scores as they are. The
  translated sequence has the length of the ranked one and its \<open>i\<close>-th entry is the
  translation of the \<open>i\<close>-th ranked index.
\<close>

theorem query_samples_translates:
  assumes "ranking_step qs env (pool_dataloader dm (batch_size dm) (m qs))
             (labeled_dataloader dm (batch_size dm)) = Inr (inds, vals)"
  shows "fst (query_samples qs env dm) = Inr (get_pool_indices dm inds, vals)
       \<and> length (get_pool_indices dm inds) = length inds
       \<and> (\<forall>i < length inds. get_pool_indices dm inds ! i = pool_index dm (inds ! i))"
  using assms by (simp add: query_samples_eq get_pool_indices_def)

theorem query_samples_translates_witness:
  "ranking_step ex_sampler ex_env
      (pool_dataloader ex_datamodule (batch_size ex_datamodule) (m ex_sampler))
      (labeled_dataloader ex_datamodule (batch_size ex_datamodule))
     = Inr ([1, 3, 7], [9/10, 9/10, 9/10])
   \<and> fst (query_samples ex_sampler ex_env ex_datamodule) = Inr ([6, 8, 12], [9/10, 9/10, 9/10])
   \<and> get_pool_indices ex_datamodule [1, 3, 7] = [6, 8, 12]
   \<and> length (get_pool_indices ex_datamodule [1, 3, 7]) = length [1, 3, 7 :: nat]
   \<and> get_pool_indices ex_datamodule [1, 3, 7] ! 2 = pool_index ex_datamodule ([1, 3, 7] ! 2)"
proof -
  have r: "ranking_step ex_sampler ex_env
      (pool_dataloader ex_datamodule (batch_size ex_datamodule) (m ex_sampler))
      (labeled_dataloader ex_datamodule (batch_size ex_datamodule))
     = Inr ([1, 3, 7], [9/10, 9/10, 9/10])"
    by code_simp
  have g: "get_pool_indices ex_datamodule [1, 3, 7] = [6, 8, 12]"
    by (simp add: get_pool_indices_def ex_datamodule_def)
  note t = query_samples_translates [OF r]
  from t have "get_pool_indices ex_datamodule [1, 3, 7] ! 2 = pool_index ex_datamodule ([1, 3, 7] ! 2)"
    by simp
  with t r g show ?thesis by simp
qed

text \<open>
  C4. The outcome of \<^verbatim>\<open>active_callback\<close> with visualization is the outcome without
  it, whatever the visualization step does. When the non-visualizing call returns an
  ActiveStore and the visualization step raises, the visualizing call returns that
  same ActiveStore (so the same requests, labels, label count and accuracies), leaves
  the data module as it was and prints the warning.
\<close>

theorem visualization_failure_is_caught:
  "fst (active_callback qs env dm True) = fst (active_callback qs env dm False)
   \<and> (\<forall>store. fst (active_callback qs env dm False) = Inr store
         \<and> (\<forall>n ls ds vs c i. vis_callback env n ls ds vs c i \<noteq> Inr ())
       \<longrightarrow> active_callback qs env dm True = (Inr store, dm, [vis_warning]))"
proof -
  have "active_callback qs env dm True = (Inr store, dm, [vis_warning])"
    if ok: "fst (active_callback qs env dm False) = Inr store"
      and fails: "\<forall>n ls ds vs c i. vis_callback env n ls ds vs c i \<noteq> Inr ()" for store
  proof -
    from active_callback_Inr [OF ok] obtain inds vals data labs av atst where
      q: "query_samples qs env dm = (Inr (inds, vals), dm)"
      and ob: "obtain_data_from_pool (shape env) (pool (train_set dm)) inds = (Inr (data, labs), pool (train_set dm))"
      and av: "evaluate_accuracy (model qs) (val_dataloader dm) = Inr av"
      and atst: "evaluate_accuracy (model qs) (test_dataloader dm) = Inr atst"
      and st: "store = \<lparr>requests = inds, n_labelled = train_n_labelled (train_set dm),
                accuracy_val = av, accuracy_test = atst, labels = labs\<rparr>"
      by blast
    obtain e where "vis_callback env (train_n_labelled (train_set dm)) labs data vals
        (num_classes dm) (count_opt qs) = Inl e"
      using fails by (metis old.unit.exhaust sum.exhaust_sel sum.collapse(2) sumE)
    then show ?thesis
      using q ob av atst st by (simp add: active_callback_def)
  qed
  then show ?thesis using active_callback_vis_irrelevant [of qs env dm] by blast
qed

theorem visualization_failure_is_caught_witness:
  "fst (active_callback ex_sampler ex_env ex_datamodule False)
     = Inr \<lparr>requests = [6, 8, 12], n_labelled = 7, accuracy_val = 3/4, accuracy_test = 0,
            labels = [1, 1, 1]\<rparr>
   \<and> (\<forall>n ls ds vs c i. vis_callback ex_env n ls ds vs c i \<noteq> Inr ())
   \<and> fst (active_callback ex_sampler ex_env ex_datamodule True)
     = Inr \<lparr>requests = [6, 8, 12], n_labelled = 7, accuracy_val = 3/4, accuracy_test = 0,
            labels = [1, 1, 1]\<rparr>
   \<and> snd (snd (active_callback ex_sampler ex_env ex_datamodule True)) = [vis_warning]"
proof -
  have ok: "fst (active_callback ex_sampler ex_env ex_datamodule False)
     = Inr \<lparr>requests = [6, 8, 12], n_labelled = 7, accuracy_val = 3/4, accuracy_test = 0,
            labels = [1, 1, 1]\<rparr>"
    by code_simp
  have fails: "\<forall>n ls ds vs c i. vis_callback ex_env n ls ds vs c i \<noteq> Inr ()"
    by (simp add: vis_callback_def ex_env_def)
  from visualization_failure_is_caught [of ex_sampler ex_env ex_datamodule] ok fails
  have "active_callback ex_sampler ex_env ex_datamodule True
     = (Inr \<lparr>requests = [6, 8, 12], n_labelled = 7, accuracy_val = 3/4, accuracy_test = 0,
            labels = [1, 1, 1]\<rparr>, ex_datamodule, [vis_warning])"
    by blast
  then show ?thesis using ok fails by simp
qed

text \<open>
  C5. When the prefix of the configured strategy name is in neither family's name set,
  \<^verbatim>\<open>ranking_step\<close> raises \<open>NotImplementedError\<close> (the specification's
  UnsupportedStrategy), whatever the loaders and whatever the scoring functions are, so
  before any of them is used; \<^verbatim>\<open>query_samples\<close> and \<^verbatim>\<open>active_callback\<close>
  raise the same error and return neither a result nor an ActiveStore.
\<close>

theorem unsupported_strategy_raises:
  assumes "method_prefix (acq_method qs) \<notin> set (uncertainty_names env)"
    and "method_prefix (acq_method qs) \<notin> set (diversity_names env)"
  shows "ranking_step qs env pool_loader labeled_loader = Inl NotImplementedError
       \<and> ranking_step qs (env\<lparr>acq_fn := f, post_acq_fn := g, diversity_select := d\<rparr>)
            pool_loader labeled_loader = Inl NotImplementedError
       \<and> fst (query_samples qs env dm) = Inl NotImplementedError
       \<and> fst (active_callback qs env dm vis) = Inl NotImplementedError"
proof -
  have r: "ranking_step qs env pl ll = Inl NotImplementedError" for pl ll
    using assms by (simp add: ranking_step_def)
  have r': "ranking_step qs (env\<lparr>acq_fn := f, post_acq_fn := g, diversity_select := d\<rparr>)
      pool_loader labeled_loader = Inl NotImplementedError"
    using assms by (simp add: ranking_step_def)
  have q: "query_samples qs env dm = (Inl NotImplementedError, dm)"
    by (simp add: query_samples_eq r)
  have "active_callback qs env dm vis = (Inl NotImplementedError, dm, [])"
    using q by (rule active_callback_error)
  then show ?thesis using r r' q by simp
qed

theorem unsupported_strategy_raises_witness:
  "method_prefix (acq_method (ex_sampler\<lparr>acq_method := ''margin_top_2''\<rparr>))
      \<notin> set (uncertainty_names ex_env)
   \<and> method_prefix (acq_method (ex_sampler\<lparr>acq_method := ''margin_top_2''\<rparr>))
      \<notin> set (diversity_names ex_env)
   \<and> ranking_step (ex_sampler\<lparr>acq_method := ''margin_top_2''\<rparr>) ex_env ex_loader []
      = Inl NotImplementedError
   \<and> ranking_step (ex_sampler\<lparr>acq_method := ''margin_top_2''\<rparr>) ex_env [] []
      = Inl NotImplementedError
   \<and> fst (query_samples (ex_sampler\<lparr>acq_method := ''margin_top_2''\<rparr>) ex_env ex_datamodule)
      = Inl NotImplementedError
   \<and> fst (active_callback (ex_sampler\<lparr>acq_method := ''margin_top_2''\<rparr>) ex_env ex_datamodule True)
      = Inl NotImplementedError"
proof -
  have h1: "method_prefix (acq_method (ex_sampler\<lparr>acq_method := ''margin_top_2''\<rparr>))
      \<notin> set (uncertainty_names ex_env)"
    by (simp add: method_prefix_def ex_env_def)
  have h2: "method_prefix (acq_method (ex_sampler\<lparr>acq_method := ''margin_top_2''\<rparr>))
      \<notin> set (diversity_names ex_env)"
    by (simp add: method_prefix_def ex_env_def)
  show ?thesis
    using h1 h2
      unsupported_strategy_raises [OF h1 h2, of ex_loader "[]" _ _ _ ex_datamodule True]
      unsupported_strategy_raises [OF h1 h2, of "[]" "[]" _ _ _ ex_datamodule True]
    by simp
qed

text \<open>
  C6. A ranking round with a strategy of either family over a pool of size zero raises
  \<open>EmptyPool\<close>; \<^verbatim>\<open>query_samples\<close> and \<^verbatim>\<open>active_callback\<close> then raise it
  too, so no ranking result and no ActiveStore is produced.
\<close>

theorem empty_pool_raises:
  assumes "method_prefix (acq_method qs) \<in> set (uncertainty_names env) \<union> set (diversity_names env)"
  shows "(pool_size pool_loader = 0 \<longrightarrow>
            ranking_step qs env pool_loader labeled_loader = Inl EmptyPool)
       \<and> (pool_size (pool_dataloader dm (batch_size dm) (m qs)) = 0 \<longrightarrow>
            fst (query_samples qs env dm) = Inl EmptyPool
            \<and> fst (active_callback qs env dm vis) = Inl EmptyPool)"
proof -
  have r: "ranking_step qs env pl ll = Inl EmptyPool" if "pool_size pl = 0" for pl ll
    using assms that
    by (auto simp: ranking_step_def uncertainty_query_sampler_eq diversity_query_sampler_def)
  have "fst (query_samples qs env dm) = Inl EmptyPool
      \<and> fst (active_callback qs env dm vis) = Inl EmptyPool"
    if p: "pool_size (pool_dataloader dm (batch_size dm) (m qs)) = 0"
  proof -
    have q: "query_samples qs env dm = (Inl EmptyPool, dm)"
      by (simp add: query_samples_eq r [OF p])
    from active_callback_error [OF q] q show ?thesis by simp
  qed
  with r show ?thesis by blast
qed

theorem empty_pool_raises_witness:
  "method_prefix (acq_method ex_sampler) \<in> set (uncertainty_names ex_env) \<union> set (diversity_names ex_env)
   \<and> pool_size ([[], []] :: real list list) = 0
   \<and> ranking_step ex_sampler ex_env [[], []] [] = Inl EmptyPool
   \<and> pool_size (pool_dataloader (ex_datamodule\<lparr>pool_dataloader := (\<lambda>b passes. [])\<rparr>)
        (batch_size (ex_datamodule\<lparr>pool_dataloader := (\<lambda>b passes. [])\<rparr>)) (m ex_sampler)) = 0
   \<and> fst (query_samples ex_sampler ex_env (ex_datamodule\<lparr>pool_dataloader := (\<lambda>b passes. [])\<rparr>))
      = Inl EmptyPool
   \<and> fst (active_callback ex_sampler ex_env (ex_datamodule\<lparr>pool_dataloader := (\<lambda>b passes. [])\<rparr>) False)
      = Inl EmptyPool"
proof -
  have h: "method_prefix (acq_method ex_sampler)
      \<in> set (uncertainty_names ex_env) \<union> set (diversity_names ex_env)"
    by (simp add: method_prefix_def ex_env_def ex_sampler_def)
  have p1: "pool_size ([[], []] :: real list list) = 0"
    by (simp add: pool_size_def)
  have p2: "pool_size (pool_dataloader (ex_datamodule\<lparr>pool_dataloader := (\<lambda>b passes. [])\<rparr>)
        (batch_size (ex_datamodule\<lparr>pool_dataloader := (\<lambda>b passes. [])\<rparr>)) (m ex_sampler)) = 0"
    by (simp add: pool_size_def)
  show ?thesis
    using h p1 p2
      empty_pool_raises [OF h, of "[[], []]" "[]"
        "ex_datamodule\<lparr>pool_dataloader := (\<lambda>b passes. [])\<rparr>" False]
    by simp
qed

text \<open>
  C7. The claim is that an absent or empty loader gives accuracy 0 and a non-empty
  loader a value in the unit interval. The absent loader does give 0 and a loader with
  at least one sample gives a value between 0 and 1 (the facts
  \<open>evaluate_accuracy_absent\<close>, \<open>evaluate_accuracy_returns\<close> and
  \<open>evaluate_accuracy_range\<close>). A loader that is present and yields no batch leaves
  \<^verbatim>\<open>counts\<close> at zero, and the final division raises \<open>ZeroDivisionError\<close>.
\<close>

theorem evaluate_accuracy_empty_loader:
  "evaluate_accuracy mdl (Some []) = Inl ZeroDivisionError"
  by (simp add: evaluate_accuracy_def)




text \<open>
  C9. \<^verbatim>\<open>obtain_data_from_pool\<close> leaves the pool as it was, and
  \<^verbatim>\<open>query_samples\<close> and \<^verbatim>\<open>active_callback\<close> leave the data module as it was
  (pool contents, label count, loaders and index translation), whether they return or
  raise.
\<close>

theorem acquisition_is_read_only:
  "snd (obtain_data_from_pool shp pl inds) = pl
   \<and> snd (query_samples qs env dm) = dm
   \<and> fst (snd (active_callback qs env dm vis)) = dm"
proof -
  have "snd (obtain_data_from_pool shp pl inds) = pl"
    by (simp add: obtain_data_from_pool_eq)
  then show ?thesis
    by (simp add: query_samples_frame active_callback_frame)
qed

text \<open>
  C10. The data and labels that \<^verbatim>\<open>obtain_data_from_pool\<close> returns are aligned with
  the indices given: at every position \<open>i\<close> they are the input and the label of the
  pool's sample at the \<open>i\<close>-th index. Hence in every ActiveStore returned by
  \<^verbatim>\<open>active_callback\<close> the \<open>i\<close>-th label is the label of the pool's sample at the
  \<open>i\<close>-th request.
\<close>

theorem labels_aligned_with_requests:
  "(\<forall>data labs. fst (obtain_data_from_pool shp pl inds) = Inr (data, labs) \<longrightarrow>
       length data = length inds \<and> length labs = length inds
       \<and> (\<forall>i < length inds. inds ! i < length pl
             \<and> data ! i = fst (pl ! (inds ! i)) \<and> labs ! i = snd (pl ! (inds ! i))))
   \<and> (\<forall>store. fst (active_callback qs env dm vis) = Inr store \<longrightarrow>
       length (labels store) = length (requests store)
       \<and> (\<forall>i < length (requests store). requests store ! i < length (pool (train_set dm))
             \<and> labels store ! i = snd (pool (train_set dm) ! (requests store ! i))))"
proof -
  have aligned: "length data = length ix \<and> length labs = length ix
       \<and> (\<forall>i < length ix. ix ! i < length p
             \<and> data ! i = fst (p ! (ix ! i)) \<and> labs ! i = snd (p ! (ix ! i)))"
    if "obtain_data_from_pool sh p ix = (Inr (data, labs), p')" for sh p p' ix data labs
    using obtain_data_from_pool_Inr [OF that] by (auto simp: list_all_length)
  have direct: "length data = length inds \<and> length labs = length inds
       \<and> (\<forall>i < length inds. inds ! i < length pl
             \<and> data ! i = fst (pl ! (inds ! i)) \<and> labs ! i = snd (pl ! (inds ! i)))"
    if "fst (obtain_data_from_pool shp pl inds) = Inr (data, labs)" for data labs
  proof -
    from that have "obtain_data_from_pool shp pl inds
        = (Inr (data, labs), snd (obtain_data_from_pool shp pl inds))"
      by (metis prod.collapse)
    then show ?thesis by (rule aligned)
  qed
  have store: "length (labels store) = length (requests store)
       \<and> (\<forall>i < length (requests store). requests store ! i < length (pool (train_set dm))
             \<and> labels store ! i = snd (pool (train_set dm) ! (requests store ! i)))"
    if ok: "fst (active_callback qs env dm vis) = Inr store" for store
  proof -
    from active_callback_Inr [OF ok] obtain rq vals data labs av atst where
      ob: "obtain_data_from_pool (shape env) (pool (train_set dm)) rq = (Inr (data, labs), pool (train_set dm))"
      and st: "store = \<lparr>requests = rq, n_labelled = train_n_labelled (train_set dm),
                accuracy_val = av, accuracy_test = atst, labels = labs\<rparr>"
      by blast
    from aligned [OF ob] show ?thesis using st by simp
  qed
  from direct store show ?thesis by blast
qed

theorem labels_aligned_with_requests_witness:
  "fst (obtain_data_from_pool (shape ex_env) (pool (train_set ex_datamodule)) [6, 8, 12])
     = Inr ([9/10, 9/10, 9/10], [1, 1, 1])
   \<and> [6, 8, 12] ! 1 < length (pool (train_set ex_datamodule))
   \<and> [9/10, 9/10, 9/10] ! 1 = fst (pool (train_set ex_datamodule) ! ([6, 8, 12] ! 1))
   \<and> [1, 1, 1] ! 1 = snd (pool (train_set ex_datamodule) ! ([6, 8, 12] ! 1))
   \<and> fst (active_callback ex_sampler ex_env ex_datamodule False)
     = Inr \<lparr>requests = [6, 8, 12], n_labelled = 7, accuracy_val = 3/4, accuracy_test = 0,
            labels = [1, 1, 1]\<rparr>
   \<and> [1, 1, 1] ! 2 = snd (pool (train_set ex_datamodule) ! ([6, 8, 12] ! 2))"
proof -
  have ob: "fst (obtain_data_from_pool (shape ex_env) (pool (train_set ex_datamodule)) [6, 8, 12])
     = Inr ([9/10, 9/10, 9/10], [1, 1, 1])"
    by code_simp
  have ok: "fst (active_callback ex_sampler ex_env ex_datamodule False)
     = Inr \<lparr>requests = [6, 8, 12], n_labelled = 7, accuracy_val = 3/4, accuracy_test = 0,
            labels = [1, 1, 1]\<rparr>"
    by code_simp
  note t = labels_aligned_with_requests [of "shape ex_env" "pool (train_set ex_datamodule)"
      "[6, 8, 12]" ex_sampler ex_env ex_datamodule False]
  from t ob have "\<forall>i < length [6, 8, 12 :: nat]. [6, 8, 12] ! i < length (pool (train_set ex_datamodule))
      \<and> [9/10, 9/10, 9/10] ! i = fst (pool (train_set ex_datamodule) ! ([6, 8, 12] ! i))
      \<and> [1, 1, 1] ! i = snd (pool (train_set ex_datamodule) ! ([6, 8, 12] ! i))"
    by blast
  from this [rule_format, of 1] have a: "[6, 8, 12] ! 1 < length (pool (train_set ex_datamodule))
      \<and> [9/10, 9/10, 9/10] ! 1 = fst (pool (train_set ex_datamodule) ! ([6, 8, 12] ! 1))
      \<and> [1, 1, 1] ! 1 = snd (pool (train_set ex_datamodule) ! ([6, 8, 12] ! 1))"
    by simp
  from t ok have "\<forall>i < length (requests \<lparr>requests = [6, 8, 12], n_labelled = 7,
        accuracy_val = 3/4, accuracy_test = 0, labels = [1, 1, 1]\<rparr>).
      labels \<lparr>requests = [6, 8, 12], n_labelled = 7,
        accuracy_val = 3/4, accuracy_test = 0, labels = [1, 1, 1]\<rparr> ! i
        = snd (pool (train_set ex_datamodule) ! (requests \<lparr>requests = [6, 8, 12], n_labelled = 7,
        accuracy_val = 3/4, accuracy_test = 0, labels = [1, 1, 1]\<rparr> ! i))"
    by blast
  from this [rule_format, of 2] have b: "[1, 1, 1] ! 2 = snd (pool (train_set ex_datamodule) ! ([6, 8, 12] ! 2))"
    by simp
  from ob ok a b show ?thesis by blast
qed

end
